theory Spec2Isabelle
  imports Main "HOL-Library.Sublist"
begin

section \<open>Strings, errors and the helpers of the Go library\<close>

text \<open>
  A Go string is a sequence of bytes and is modelled as a \<open>string\<close> (a list of
  \<open>char\<close>, each one byte). Where the program leaves through \<open>fail\<close> (message on the
  error stream, \<open>os.Exit(1)\<close>), through a runtime panic or through \<open>os.Exit(0)\<close>, the model
  returns the corresponding \<open>error\<close> on the left of a sum.
\<close>

datatype error =
    Fatal string
  | Panic string
  | Cancelled

definition exitCode :: "error \<Rightarrow> int" where
  "exitCode e = (case e of Fatal m \<Rightarrow> 1 | Panic m \<Rightarrow> 2 | Cancelled \<Rightarrow> 0)"

definition newline :: char where
  "newline = CHR 0x0A"

definition slash :: char where
  "slash = CHR ''/''"

definition space :: char where
  "space = CHR '' ''"

definition delimiter :: string where
  "delimiter = ''////''"

text \<open>\<open>strings.Index\<close>: the index of the first occurrence of \<open>sub\<close>, or \<open>-1\<close>.\<close>

fun Index :: "string \<Rightarrow> string \<Rightarrow> int" where
  "Index [] sub = (if sub = [] then 0 else -1)"
| "Index (c # cs) sub =
     (if prefix sub (c # cs) then 0
      else (let r = Index cs sub in if r < 0 then -1 else r + 1))"

text \<open>\<open>strings.LastIndex\<close>: the index of the last occurrence of \<open>sub\<close>, or \<open>-1\<close>.\<close>

fun LastIndex :: "string \<Rightarrow> string \<Rightarrow> int" where
  "LastIndex [] sub = (if sub = [] then 0 else -1)"
| "LastIndex (c # cs) sub =
     (let r = LastIndex cs sub in
      if 0 \<le> r then r + 1 else if prefix sub (c # cs) then 0 else -1)"

text \<open>\<open>strings.Split\<close> with a separator of one byte: the pieces between the separators,
  always at least one piece.\<close>

fun Split :: "string \<Rightarrow> char \<Rightarrow> string list" where
  "Split [] sep = [Nil]"
| "Split (c # cs) sep =
     (if c = sep then [] # Split cs sep
      else (case Split cs sep of [] \<Rightarrow> [c # Nil] | l # ls \<Rightarrow> (c # l) # ls))"

text \<open>\<open>strings.SplitN(s, sep, 2)\<close> with a separator of one byte: one piece when the
  separator does not occur, otherwise the text before and the text after its first
  occurrence.\<close>

definition SplitN2 :: "string \<Rightarrow> char \<Rightarrow> string list" where
  "SplitN2 s sep =
     (if sep \<in> set s
      then [takeWhile (\<lambda>c. c \<noteq> sep) s, tl (dropWhile (\<lambda>c. c \<noteq> sep) s)]
      else [s])"

text \<open>\<open>strings.Join\<close> with a separator of one byte.\<close>

fun JoinSep :: "string list \<Rightarrow> char \<Rightarrow> string" where
  "JoinSep [] sep = []"
| "JoinSep [x] sep = x"
| "JoinSep (x # y # ys) sep = x @ sep # JoinSep (y # ys) sep"

definition TrimPrefix :: "string \<Rightarrow> string \<Rightarrow> string" where
  "TrimPrefix s p = (if prefix p s then drop (length p) s else s)"

definition TrimSuffix :: "string \<Rightarrow> string \<Rightarrow> string" where
  "TrimSuffix s x = (if suffix x s then take (length s - length x) s else s)"

text \<open>The slice expression \<open>s[i:]\<close>, which panics when \<open>i\<close> is out of range.\<close>

definition sliceFrom :: "string \<Rightarrow> int \<Rightarrow> error + string" where
  "sliceFrom s i =
     (if 0 \<le> i \<and> i \<le> int (length s) then Inr (drop (nat i) s)
      else Inl (Panic ''slice bounds out of range''))"

subsection \<open>Paths: \<open>filepath.Base\<close>, \<open>filepath.Ext\<close>, \<open>filepath.Clean\<close>, \<open>filepath.Join\<close>\<close>

text \<open>
  The functions of package \<open>path/filepath\<close> on a Unix system, after their documentation.
  \<open>Clean\<close> is written on the list of path elements: empty elements and \<open>.\<close> are dropped,
  \<open>..\<close> removes the element before it, is dropped at the root and is kept at the start of
  a relative path; the empty result is \<open>.\<close>.
\<close>

definition Base :: "string \<Rightarrow> string" where
  "Base path =
     (if path = [] then ''.''
      else (let p = rev (dropWhile (\<lambda>c. c = slash) (rev path));
                b = rev (takeWhile (\<lambda>c. c \<noteq> slash) (rev p))
            in if b = [] then [slash] else b))"

definition Ext :: "string \<Rightarrow> string" where
  "Ext path =
     (let e = rev (takeWhile (\<lambda>c. c \<noteq> slash) (rev path))
      in if CHR ''.'' \<in> set e
         then CHR ''.'' # rev (takeWhile (\<lambda>c. c \<noteq> CHR ''.'') (rev e))
         else [])"

fun cleanElems :: "bool \<Rightarrow> string list \<Rightarrow> string list \<Rightarrow> string list" where
  "cleanElems rooted out [] = out"
| "cleanElems rooted out (e # es) =
     (if e = [] \<or> e = ''.'' then cleanElems rooted out es
      else if e = ''..'' then
        (if out \<noteq> [] \<and> last out \<noteq> ''..'' then cleanElems rooted (butlast out) es
         else if rooted then cleanElems rooted out es
         else cleanElems rooted (out @ [''..'']) es)
      else cleanElems rooted (out @ [e]) es)"

definition Clean :: "string \<Rightarrow> string" where
  "Clean path =
     (if path = [] then ''.''
      else (let rooted = (hd path = slash);
                body = JoinSep (cleanElems rooted [] (Split path slash)) slash;
                res = (if rooted then slash # body else body)
            in if res = [] then ''.'' else res))"

fun Join :: "string list \<Rightarrow> string" where
  "Join [] = []"
| "Join (e # es) = (if e = [] then Join es else Clean (JoinSep (e # es) slash))"

section \<open>The database parser\<close>

text \<open>\<open>keyval\<close> (src/mpd-fzf.go, lines 37-43).\<close>

definition keyval :: "string \<Rightarrow> string \<times> string" where
  "keyval line =
     (let i = Index line '':'' in
      if i = -1 \<or> i = int (length line) - 1 then (line, [])
      else (take (nat i) line, drop (nat (i + 2)) line))"

record Track =
  Album :: string
  Artist :: string
  Date :: string
  Filename :: string
  Genre :: string
  Path :: string
  Time :: string
  Title :: string

definition newTrack :: Track where
  "newTrack = \<lparr>Album = [], Artist = [], Date = [], Filename = [], Genre = [],
               Path = [], Time = [], Title = []\<rparr>"

subsection \<open>\<open>time.ParseDuration\<close> and the duration formatter\<close>

text \<open>
  \<open>time.ParseDuration\<close> after the source of the Go library: an optional sign, then one or
  more groups of digits, an optional fraction and a unit; the value is counted in
  nanoseconds in 64 bits, and every overflow is an error (\<open>None\<close>). The library computes
  the nanoseconds of a fraction in 64-bit floating point; the model takes the exact
  quotient rounded toward zero, which is the same number whenever the operands and the
  product are integers below \<open>2^53\<close> (a fraction of seconds with at most nine digits).
\<close>

definition isDigit :: "char \<Rightarrow> bool" where
  "isDigit c = (c \<in> set ''0123456789'')"

definition digitVal :: "char \<Rightarrow> nat" where
  "digitVal c = length (takeWhile (\<lambda>d. d \<noteq> c) ''0123456789'')"

fun leadingInt :: "string \<Rightarrow> nat \<Rightarrow> (nat \<times> string) option" where
  "leadingInt [] x = Some (x, [])"
| "leadingInt (c # cs) x =
     (if \<not> isDigit c then Some (x, c # cs)
      else if x > 2 ^ 63 div 10 then None
      else (let y = x * 10 + digitVal c
            in if y > 2 ^ 63 then None else leadingInt cs y))"

fun leadingFraction :: "string \<Rightarrow> nat \<Rightarrow> nat \<Rightarrow> bool \<Rightarrow> nat \<times> nat \<times> string" where
  "leadingFraction [] x scale overflow = (x, scale, [])"
| "leadingFraction (c # cs) x scale overflow =
     (if \<not> isDigit c then (x, scale, c # cs)
      else if overflow then leadingFraction cs x scale True
      else if x > (2 ^ 63 - 1) div 10 then leadingFraction cs x scale True
      else (let y = x * 10 + digitVal c
            in if y > 2 ^ 63 then leadingFraction cs x scale True
               else leadingFraction cs y (scale * 10) False))"

definition unitMap :: "string \<Rightarrow> nat option" where
  "unitMap u =
     (if u = ''ns'' then Some 1
      else if u = ''us'' then Some 1000
      else if u = [CHR 0xC2, CHR 0xB5, CHR ''s''] then Some 1000
      else if u = [CHR 0xCE, CHR 0xBC, CHR ''s''] then Some 1000
      else if u = ''ms'' then Some 1000000
      else if u = ''s'' then Some 1000000000
      else if u = ''m'' then Some 60000000000
      else if u = ''h'' then Some 3600000000000
      else None)"

definition notUnitChar :: "char \<Rightarrow> bool" where
  "notUnitChar c = (c = CHR ''.'' \<or> isDigit c)"

text \<open>One group \<open>[0-9]*(\.[0-9]*)?[a-z]+\<close>: its nanoseconds and the rest of the input.\<close>

definition durationGroup :: "string \<Rightarrow> (nat \<times> string) option" where
  "durationGroup s =
     (if s = [] \<or> \<not> notUnitChar (hd s) then None
      else case leadingInt s 0 of
        None \<Rightarrow> None
      | Some (v, s1) \<Rightarrow>
         (let pre = (length s \<noteq> length s1);
              hasDot = (s1 \<noteq> [] \<and> hd s1 = CHR ''.'');
              fr = (if hasDot then leadingFraction (tl s1) 0 1 False else (0, 1, s1));
              f = fst fr;
              scale = fst (snd fr);
              s2 = snd (snd fr);
              post = (hasDot \<and> length (tl s1) \<noteq> length s2);
              u = takeWhile (\<lambda>c. \<not> notUnitChar c) s2;
              s3 = dropWhile (\<lambda>c. \<not> notUnitChar c) s2
          in if \<not> pre \<and> \<not> post then None
             else if u = [] then None
             else case unitMap u of
               None \<Rightarrow> None
             | Some unit \<Rightarrow>
                (if v > 2 ^ 63 div unit then None
                 else (let w = (if f > 0 then v * unit + f * unit div scale else v * unit)
                       in if w > 2 ^ 63 then None else Some (w, s3)))))"

function durationLoop :: "string \<Rightarrow> nat \<Rightarrow> nat option" where
  "durationLoop s d =
     (if s = [] then Some d
      else case durationGroup s of
        None \<Rightarrow> None
      | Some (w, r) \<Rightarrow>
         (let d' = (d + w) mod 2 ^ 64
          in if d' > 2 ^ 63 then None else durationLoop r d'))"
  by pat_completeness auto
termination
proof -
  have li: "length r \<le> length s" if "leadingInt s x = Some (v, r)" for s x v r
    using that
    by (induction s x rule: leadingInt.induct) (auto simp: Let_def split: if_splits)
  have lf: "length (snd (snd (leadingFraction s x sc ov))) \<le> length s" for s x sc ov
    by (induction s x sc ov rule: leadingFraction.induct) (auto simp: Let_def le_SucI)
  have dg: "length r < length s" if g: "durationGroup s = Some (w, r)" for s w r
  proof -
    from g obtain v s1 where v: "leadingInt s 0 = Some (v, s1)"
      by (auto simp: durationGroup_def split: if_splits option.splits)
    define hasDot where "hasDot = (s1 \<noteq> [] \<and> hd s1 = CHR ''.'')"
    define s2 where
      "s2 = snd (snd (if hasDot then leadingFraction (tl s1) 0 1 False else (0, 1, s1)))"
    have l1: "length s1 \<le> length s"
      using v by (rule li)
    have l2: "length s2 \<le> length s1"
      using lf [of "tl s1" 0 1 False]
      by (cases hasDot) (auto simp: s2_def intro: le_trans)
    have u: "takeWhile (\<lambda>c. \<not> notUnitChar c) s2 \<noteq> []"
      and r: "r = dropWhile (\<lambda>c. \<not> notUnitChar c) s2"
      using g v
      by (auto simp: durationGroup_def Let_def s2_def hasDot_def
               split: if_splits option.splits)
    have "length (takeWhile (\<lambda>c. \<not> notUnitChar c) s2) + length r = length s2"
      unfolding r by (metis length_append takeWhile_dropWhile_id)
    with u have "length r < length s2"
      by (cases "takeWhile (\<lambda>c. \<not> notUnitChar c) s2") auto
    with l1 l2 show ?thesis by linarith
  qed
  show ?thesis
    by (relation "measure (\<lambda>(s, d). length s)") (auto dest: dg)
qed

definition ParseDuration :: "string \<Rightarrow> int option" where
  "ParseDuration s =
     (let signed = (s \<noteq> [] \<and> (hd s = CHR ''-'' \<or> hd s = CHR ''+''));
          neg = (signed \<and> hd s = CHR ''-'');
          t = (if signed then tl s else s)
      in if t = ''0'' then Some 0
         else if t = [] then None
         else case durationLoop t 0 of
           None \<Rightarrow> None
         | Some d \<Rightarrow>
            (if neg then Some (- int d)
             else if d > 2 ^ 63 - 1 then None
             else Some (int d)))"

text \<open>
  \<open>formatDurationString\<close> (lines 73-84). \<open>zero.Add(duration).Format("04:05")\<close> prints the
  minute and the second of the instant \<open>duration\<close> after midnight of the zero time, each
  with two digits; \<open>int(duration.Hours())\<close> is the number of whole hours of a duration
  above one hour (the library computes it through a floating-point sum, which is this
  number for every duration below 4096 hours).
\<close>

definition digitChar :: "nat \<Rightarrow> char" where
  "digitChar n = ''0123456789'' ! (n mod 10)"

definition pad2 :: "nat \<Rightarrow> string" where
  "pad2 n = [digitChar (n div 10), digitChar n]"

fun showNat :: "nat \<Rightarrow> string" where
  "showNat n = (if n < 10 then [digitChar n] else showNat (n div 10) @ [digitChar n])"

definition Second :: int where
  "Second = 1000000000"

definition Hour :: int where
  "Hour = 3600 * Second"

definition formatDurationString :: "string \<Rightarrow> string" where
  "formatDurationString str =
     (case ParseDuration (str @ ''s'') of
        None \<Rightarrow> []
      | Some duration \<Rightarrow>
         (let secs = duration div Second;
              format = pad2 (nat (secs div 60 mod 60)) @ '':'' @ pad2 (nat (secs mod 60));
              format' = (if duration > Hour
                         then showNat (nat (duration div Hour)) @ '':'' @ format
                         else format)
          in ''('' @ format' @ '')''))"

text \<open>\<open>Track.Set\<close> (lines 56-71).\<close>

definition Track_Set :: "Track \<Rightarrow> string \<Rightarrow> string \<Rightarrow> Track" where
  "Track_Set t key val =
     (if key = ''Album'' then t\<lparr>Album := val\<rparr>
      else if key = ''Artist'' then t\<lparr>Artist := val\<rparr>
      else if key = ''Date'' then t\<lparr>Date := val\<rparr>
      else if key = ''Genre'' then t\<lparr>Genre := val\<rparr>
      else if key = ''Time'' then t\<lparr>Time := formatDurationString val\<rparr>
      else if key = ''Title'' then t\<lparr>Title := val\<rparr>
      else t)"

text \<open>
  \<open>parse\<close> (lines 157-184). The scanner is the list of the lines it yields and the error
  it reports at the end, if any. The state of the loop is the list of finished tracks,
  the track being built and the stack of open directories, pushed and popped at its end.
\<close>

record parse_state =
  tracks :: "Track list"
  track :: Track
  dirs :: "string list"

definition parseLine :: "parse_state \<Rightarrow> string \<Rightarrow> error + parse_state" where
  "parseLine st line =
     (let key = fst (keyval line); val = snd (keyval line) in
      if key = ''directory'' then Inr (st\<lparr>dirs := dirs st @ [val]\<rparr>)
      else if key = ''end'' then
        (if int (length (dirs st)) \<le> 0
         then Inl (Fatal ''Invalid directory state. Corrupted database?'')
         else Inr (st\<lparr>dirs := butlast (dirs st)\<rparr>))
      else if key \<in> set [''Artist'', ''Album'', ''Date'', ''Genre'', ''Time'', ''Title'']
        then Inr (st\<lparr>track := Track_Set (track st) key val\<rparr>)
      else if key = ''song_begin''
        then Inr (st\<lparr>track := (track st)\<lparr>Filename := val, Path := Join (dirs st @ [val])\<rparr>\<rparr>)
      else if key = ''song_end''
        then Inr (st\<lparr>tracks := tracks st @ [track st], track := newTrack\<rparr>)
      else Inr st)"

fun parseLines :: "parse_state \<Rightarrow> string list \<Rightarrow> error + parse_state" where
  "parseLines st [] = Inr st"
| "parseLines st (l # ls) =
     (case parseLine st l of Inl e \<Rightarrow> Inl e | Inr st' \<Rightarrow> parseLines st' ls)"

definition initState :: parse_state where
  "initState = \<lparr>tracks = [], track = newTrack, dirs = []\<rparr>"

definition parse :: "string list \<Rightarrow> string option \<Rightarrow> error + Track list" where
  "parse lines scanErr =
     (case parseLines initState lines of
        Inl e \<Rightarrow> Inl e
      | Inr st \<Rightarrow> (case scanErr of Some m \<Rightarrow> Inl (Fatal m) | None \<Rightarrow> Inr (tracks st)))"

text \<open>
  \<open>groupByArtist\<close> (lines 140-155). The first loop fills the map from artist to bucket;
  the second ranges over the map in an order Go leaves open, which is the argument
  \<open>order\<close>: some enumeration of the keys of the map, each once (\<open>iterationOrder\<close>).
\<close>

fun artistsOf :: "Track list \<Rightarrow> (string \<rightharpoonup> Track list) \<Rightarrow> (string \<rightharpoonup> Track list)" where
  "artistsOf [] m = m"
| "artistsOf (t # ts) m =
     artistsOf ts (m(Artist t \<mapsto> (case m (Artist t) of None \<Rightarrow> [] | Some b \<Rightarrow> b) @ [t]))"

definition iterationOrder :: "(string \<rightharpoonup> Track list) \<Rightarrow> string list \<Rightarrow> bool" where
  "iterationOrder m order = (distinct order \<and> set order = dom m)"

definition groupByArtist :: "string list \<Rightarrow> Track list \<Rightarrow> Track list" where
  "groupByArtist order ts =
     (let artists = artistsOf ts Map.empty
      in concat (map (\<lambda>a. case artists a of None \<Rightarrow> [] | Some b \<Rightarrow> b) order))"

section \<open>The display line\<close>

text \<open>
  The package go-runewidth, whose \<open>Truncate\<close> and \<open>FillRight\<close> the function
  \<open>truncateAndPad\<close> calls, is not part of the repository: its functions are modelled
  from section 4.3 of the spec (\<open>truncateToWidth\<close>, \<open>padToWidth\<close>). A string is read as
  the list of its characters, and the number of columns of a character is the argument
  \<open>rw\<close>, the width table of the package.
\<close>

text \<open>Modelled from the spec: \<open>runewidth.StringWidth\<close>, the column width of a string,
  the sum of the widths of its characters.\<close>

definition StringWidth :: "(char \<Rightarrow> nat) \<Rightarrow> string \<Rightarrow> nat" where
  "StringWidth rw s = sum_list (map rw s)"

text \<open>Modelled from the spec: the cut of \<open>runewidth.Truncate\<close>, the largest prefix that
  takes at most \<open>w\<close> columns; whole characters only, and empty when \<open>w\<close> is negative.\<close>

fun takeWidth :: "(char \<Rightarrow> nat) \<Rightarrow> string \<Rightarrow> int \<Rightarrow> string" where
  "takeWidth rw [] w = []"
| "takeWidth rw (c # cs) w =
     (if int (rw c) > w then [] else c # takeWidth rw cs (w - int (rw c)))"

text \<open>Modelled from the spec: \<open>runewidth.Truncate\<close> (\<open>truncateToWidth\<close>). A string that
  fits is returned as it is; otherwise the largest prefix whose width, with the width
  of the ellipsis, is at most the maximum, and then the ellipsis. The spec does not say
  what happens when no prefix is short enough; the model, like the package, then keeps
  the empty prefix.\<close>

definition Truncate :: "(char \<Rightarrow> nat) \<Rightarrow> string \<Rightarrow> int \<Rightarrow> string \<Rightarrow> string" where
  "Truncate rw s w tail =
     (if int (StringWidth rw s) \<le> w then s
      else takeWidth rw s (w - int (StringWidth rw tail)) @ tail)"

text \<open>Modelled from the spec: \<open>runewidth.FillRight\<close> (\<open>padToWidth\<close>): spaces are appended
  up to the width; a string that is already as wide is returned unchanged.\<close>

definition FillRight :: "(char \<Rightarrow> nat) \<Rightarrow> string \<Rightarrow> int \<Rightarrow> string" where
  "FillRight rw s w =
     (let count = w - int (StringWidth rw s)
      in if count > 0 then s @ replicate (nat count) space else s)"

text \<open>\<open>truncateAndPad\<close> (lines 91-96).\<close>

definition truncateAndPad :: "(char \<Rightarrow> nat) \<Rightarrow> string \<Rightarrow> int \<Rightarrow> string \<Rightarrow> error + string" where
  "truncateAndPad rw s maxWidth sfx =
     (if maxWidth < 0 then Inl (Panic ''suffix length greater than maxWidth chars'')
      else Inr (FillRight rw (Truncate rw s maxWidth sfx) maxWidth))"

definition withoutExt :: "string \<Rightarrow> string" where
  "withoutExt path = (let basename = Base path in TrimSuffix basename (Ext basename))"

text \<open>
  \<open>trackFormatter\<close> (lines 98-138). \<open>width\<close> is the number the discovery of the terminal
  width ends with (tmux, \<open>COLUMNS\<close>, stty; 0 when all fail); the function returned is
  applied to the track \<open>t\<close>.
\<close>

definition contentLen :: "int \<Rightarrow> int" where
  "contentLen width = (if width \<le> 20 then 80 else width) - 5"

definition visibleText :: "Track \<Rightarrow> string" where
  "visibleText t =
     (let str = TrimPrefix (Artist t @ '' - '' @ Title t) '' - '';
          str = (if str = [] then withoutExt (Filename t) else str)
      in if Album t \<noteq> [] then str @ '' {'' @ Album t @ ''}'' else str)"

definition trackFormatter :: "(char \<Rightarrow> nat) \<Rightarrow> int \<Rightarrow> Track \<Rightarrow> error + string" where
  "trackFormatter rw width t =
     (case truncateAndPad rw (visibleText t) (contentLen width - int (length (Time t))) ''..'' of
        Inl e \<Rightarrow> Inl e
      | Inr str \<Rightarrow> Inr (str @ Time t @ delimiter @ Path t))"

text \<open>\<open>parseFzfOutput\<close> (lines 249-262).\<close>

fun decodeLines :: "string list \<Rightarrow> error + string list" where
  "decodeLines [] = Inr []"
| "decodeLines (s # ss) =
     (case sliceFrom s (LastIndex s delimiter + int (length delimiter)) of
        Inl e \<Rightarrow> Inl e
      | Inr p \<Rightarrow> (case decodeLines ss of Inl e \<Rightarrow> Inl e | Inr ps \<Rightarrow> Inr (p # ps)))"

definition parseFzfOutput :: "string \<Rightarrow> error + string list" where
  "parseFzfOutput output =
     (let songs = Split output newline in
      if length songs = 0 \<or> hd songs = [] then Inr []
      else decodeLines (if last songs = [] then butlast songs else songs))"

section \<open>The run: selector session and queue tools\<close>

text \<open>
  What the processes and files outside the program answer is the record \<open>env\<close>: an
  optional error message for every call that can fail, the lines of the database, the
  order in which the map of artists is ranged over, the bytes the selector writes and
  the error \<open>Wait\<close> returns. \<open>ExitError m st\<close> is an \<open>*exec.ExitError\<close> with message \<open>m\<close>,
  \<open>st\<close> the exit status of its \<open>syscall.WaitStatus\<close> when it has one.
\<close>

datatype wait_error =
    ExitError string "int option"
  | OtherError string

datatype tool =
    MpcPlaylist
  | MpcDel "string list"
  | MpcInsert "string list"

record env =
  runeWidth :: "char \<Rightarrow> nat"
  termWidth :: int
  dbOpen :: "string option"
  dbLines :: "string list"
  dbScanErr :: "string option"
  mapOrder :: "string list"
  dbClose :: "string option"
  fzfStart :: "string option"
  fzfInClose :: "string option"
  fzfOutput :: "string + string"
  fzfWait :: "wait_error option"
  mpcPlaylist :: "string + string"
  mpcDelStart :: "string option"
  mpcDelClose :: "string option"
  mpcDelWait :: "string option"
  mpcInsertStart :: "string option"
  mpcInsertClose :: "string option"
  mpcInsertWait :: "string option"

text \<open>\<open>readTracks\<close> (lines 340-354); \<open>dbOpen\<close> stands for \<open>findDbFile\<close>, \<open>os.Open\<close> and
  \<open>gzip.NewReader\<close>, \<open>dbClose\<close> for the two \<open>Close\<close> calls.\<close>

definition readTracks :: "env \<Rightarrow> error + Track list" where
  "readTracks e =
     (case dbOpen e of
        Some m \<Rightarrow> Inl (Fatal m)
      | None \<Rightarrow>
         (case parse (dbLines e) (dbScanErr e) of
            Inl err \<Rightarrow> Inl err
          | Inr ts \<Rightarrow>
             (case dbClose e of
                Some m \<Rightarrow> Inl (Fatal m)
              | None \<Rightarrow> Inr (groupByArtist (mapOrder e) ts))))"

text \<open>\<open>fzfCheckExit\<close> (lines 230-247): \<open>None\<close> when the function returns.\<close>

definition fzfCheckExit :: "wait_error option \<Rightarrow> error option" where
  "fzfCheckExit err =
     (case err of
        None \<Rightarrow> None
      | Some (ExitError m None) \<Rightarrow> Some (Fatal m)
      | Some (ExitError m (Some status)) \<Rightarrow>
          (if status = 130 then Some Cancelled else Some (Fatal m))
      | Some (OtherError m) \<Rightarrow> Some (Fatal m))"

fun formatAll :: "(char \<Rightarrow> nat) \<Rightarrow> int \<Rightarrow> Track list \<Rightarrow> error + string list" where
  "formatAll rw width [] = Inr []"
| "formatAll rw width (t # ts) =
     (case trackFormatter rw width t of
        Inl e \<Rightarrow> Inl e
      | Inr l \<Rightarrow> (case formatAll rw width ts of Inl e \<Rightarrow> Inl e | Inr ls \<Rightarrow> Inr (l # ls)))"

text \<open>\<open>fzfSongs\<close> (lines 264-283); \<open>fzfStart\<close> stands for the two pipes and \<open>Start\<close>.\<close>

definition fzfSongs :: "env \<Rightarrow> Track list \<Rightarrow> error + string list" where
  "fzfSongs e ts =
     (case fzfStart e of
        Some m \<Rightarrow> Inl (Fatal m)
      | None \<Rightarrow>
         (case formatAll (runeWidth e) (termWidth e) ts of
            Inl err \<Rightarrow> Inl err
          | Inr written \<Rightarrow>
             (case fzfInClose e of
                Some m \<Rightarrow> Inl (Fatal m)
              | None \<Rightarrow>
                 (case fzfOutput e of
                    Inl m \<Rightarrow> Inl (Fatal m)
                  | Inr fzfOut \<Rightarrow>
                     (case fzfCheckExit (fzfWait e) of
                        Some err \<Rightarrow> Inl err
                      | None \<Rightarrow> parseFzfOutput fzfOut)))))"

text \<open>
  \<open>removeSongs\<close> (lines 285-319) and \<open>insertSongs\<close> (lines 321-338): the error
  returned, and the queue tools run with the lines written to them. \<open>delPositions\<close> is
  the loop over the lines of the playlist: \<open>fnames\<close> is the set of the chosen songs that
  are not empty, and the position of a line is written when its file name is in the set.
  The source drops the errors of \<open>StdinPipe\<close> and of the writes; the model has none.
\<close>

definition delPositions :: "string list \<Rightarrow> string \<Rightarrow> string list" where
  "delPositions songs out =
     (let fnames = set (filter (\<lambda>s. s \<noteq> []) songs) in
      concat (map (\<lambda>s. let posFname = SplitN2 s space in
                        if length posFname = 1 then []
                        else if posFname ! 1 \<in> fnames then [posFname ! 0]
                        else [])
                  (Split out newline)))"

definition removeSongs :: "env \<Rightarrow> string list \<Rightarrow> string option \<times> tool list" where
  "removeSongs e songs =
     (case mpcPlaylist e of
        Inl m \<Rightarrow> (Some m, [MpcPlaylist])
      | Inr out \<Rightarrow>
         (case mpcDelStart e of
            Some m \<Rightarrow> (Some m, [MpcPlaylist])
          | None \<Rightarrow>
             (case mpcDelClose e of
                Some m \<Rightarrow> (Some m, [MpcPlaylist, MpcDel (delPositions songs out)])
              | None \<Rightarrow> (mpcDelWait e, [MpcPlaylist, MpcDel (delPositions songs out)]))))"

definition insertSongs :: "env \<Rightarrow> string list \<Rightarrow> string option \<times> tool list" where
  "insertSongs e songs =
     (case mpcInsertStart e of
        Some m \<Rightarrow> (Some m, [])
      | None \<Rightarrow>
         (case mpcInsertClose e of
            Some m \<Rightarrow> (Some m, [MpcInsert songs])
          | None \<Rightarrow> (mpcInsertWait e, [MpcInsert songs])))"

text \<open>\<open>main\<close> (lines 356-364): the exit code of the process and the queue tools run.\<close>

definition main :: "env \<Rightarrow> int \<times> tool list" where
  "main e =
     (case readTracks e of
        Inl err \<Rightarrow> (exitCode err, [])
      | Inr ts \<Rightarrow>
         (case fzfSongs e ts of
            Inl err \<Rightarrow> (exitCode err, [])
          | Inr songs \<Rightarrow>
             (if length songs = 0 then (0, [])
              else (case removeSongs e songs of
                      (Some m, run) \<Rightarrow> (1, run)
                    | (None, run) \<Rightarrow>
                       (case insertSongs e songs of
                          (Some m, run') \<Rightarrow> (1, run @ run')
                        | (None, run') \<Rightarrow> (0, run @ run'))))))"

section \<open>Notions used in the statements\<close>

text \<open>The run gets as far as \<open>fzf.Wait()\<close>: the tracks were read, the selector was
  started, every line was formatted and written, and its output was read.\<close>

definition awaitsSelector :: "env \<Rightarrow> bool" where
  "awaitsSelector e =
     (case readTracks e of
        Inl err \<Rightarrow> False
      | Inr ts \<Rightarrow>
          fzfStart e = None \<and>
          (case formatAll (runeWidth e) (termWidth e) ts of Inl err \<Rightarrow> False | Inr w \<Rightarrow> True) \<and>
          fzfInClose e = None \<and>
          (case fzfOutput e of Inl m \<Rightarrow> False | Inr out \<Rightarrow> True))"

text \<open>The lines of an output block, without the one empty line a final newline leaves.\<close>

definition blockLines :: "string \<Rightarrow> string list" where
  "blockLines out =
     (if last (Split out newline) = [] then butlast (Split out newline)
      else Split out newline)"

text \<open>The block the selector writes for the chosen lines: each line and a newline.\<close>

definition outputBlock :: "string list \<Rightarrow> string" where
  "outputBlock ls = concat (map (\<lambda>l. l @ [newline]) ls)"

subsection \<open>Valid databases\<close>

text \<open>
  A valid nested sequence of lines is the rendering of a list of nodes: a song (its
  \<open>song_begin\<close> line, lines that are none of the four structural directives, its
  \<open>song_end\<close> line), a directory (its \<open>directory\<close> line, the nodes inside, a line with
  key \<open>end\<close>), or a single line that is no structural directive. Names are path
  elements: not empty, without a slash, and neither \<open>.\<close> nor \<open>..\<close>. \<open>songPaths\<close> gives
  the paths the spec asks for: the names of the open directories and the file name,
  joined by the separator, in stack order; \<open>songEnds\<close> counts the \<open>song_end\<close> directives.
\<close>

datatype node =
    Song string "string list"
  | Dir string string "node list"
  | Other string

definition directive :: "string \<Rightarrow> string \<Rightarrow> string" where
  "directive key val = key @ '': '' @ val"

fun render :: "node \<Rightarrow> string list" where
  "render (Song f body) = directive ''song_begin'' f # body @ [''song_end'']"
| "render (Dir d e ns) = directive ''directory'' d # concat (map render ns) @ [e]"
| "render (Other l) = [l]"

fun songPaths :: "string list \<Rightarrow> node \<Rightarrow> string list" where
  "songPaths stack (Song f body) = [JoinSep (stack @ [f]) slash]"
| "songPaths stack (Dir d e ns) = concat (map (songPaths (stack @ [d])) ns)"
| "songPaths stack (Other l) = []"

definition isDirective :: "string \<Rightarrow> bool" where
  "isDirective key = (key \<in> set [''directory'', ''end'', ''song_begin'', ''song_end''])"

definition validName :: "string \<Rightarrow> bool" where
  "validName s = (s \<noteq> [] \<and> slash \<notin> set s \<and> s \<noteq> ''.'' \<and> s \<noteq> ''..'')"

fun validNode :: "node \<Rightarrow> bool" where
  "validNode (Song f body) =
     (validName f \<and> (\<forall>l\<in>set body. \<not> isDirective (fst (keyval l))))"
| "validNode (Dir d e ns) =
     (validName d \<and> fst (keyval e) = ''end'' \<and> (\<forall>n\<in>set ns. validNode n))"
| "validNode (Other l) = (\<not> isDirective (fst (keyval l)))"

definition songEnds :: "string list \<Rightarrow> nat" where
  "songEnds lines = length (filter (\<lambda>l. fst (keyval l) = ''song_end'') lines)"

text \<open>From the state \<open>st\<close>, whose open directories have valid names, the lines are parsed
  without error, leave the stack as it was and add one track per \<open>song_end\<close>, with the
  given paths.\<close>

definition namesValid :: "parse_state \<Rightarrow> bool" where
  "namesValid st = (\<forall>d\<in>set (dirs st). validName d)"

definition parsesTo :: "parse_state \<Rightarrow> string list \<Rightarrow> string list \<Rightarrow> bool" where
  "parsesTo st lines paths =
     (\<exists>new tr. parseLines st lines = Inr (st\<lparr>tracks := tracks st @ new, track := tr\<rparr>) \<and>
        map Path new = paths \<and> length new = songEnds lines)"

subsection \<open>Concrete inputs\<close>

text \<open>A width table in which the letter \<open>W\<close> stands for a character two columns wide
  and every other character takes one column.\<close>

definition exampleWidth :: "char \<Rightarrow> nat" where
  "exampleWidth c = (if c = CHR ''W'' then 2 else 1)"

definition exampleTrack :: "string \<Rightarrow> string \<Rightarrow> Track" where
  "exampleTrack title path =
     \<lparr>Album = ''B'', Artist = ''A'', Date = [], Filename = ''f.mp3'', Genre = [],
      Path = path, Time = ''(02:05)'', Title = title\<rparr>"

text \<open>A run on a database of one directory and one song, in which every call succeeds,
  the selector has written the line of the song and ends as \<open>w\<close> says, and the queue
  holds the song at position 1.\<close>

definition exampleEnv :: "wait_error option \<Rightarrow> env" where
  "exampleEnv w =
     \<lparr>runeWidth = exampleWidth, termWidth = 40, dbOpen = None,
      dbLines = [''directory: Music'', ''song_begin: a.mp3'', ''Artist: Sia'',
                 ''song_end'', ''end: Music''],
      dbScanErr = None, mapOrder = [''Sia''], dbClose = None, fzfStart = None,
      fzfInClose = None, fzfOutput = Inr (outputBlock [''Sia - ////Music/a.mp3'']),
      fzfWait = w,
      mpcPlaylist = Inr (outputBlock [''1 Music/a.mp3'', ''2 b.mp3'']),
      mpcDelStart = None, mpcDelClose = None, mpcDelWait = None,
      mpcInsertStart = None, mpcInsertClose = None, mpcInsertWait = None\<rparr>"

definition trackBy :: "string \<Rightarrow> string \<Rightarrow> Track" where
  "trackBy artist path = newTrack\<lparr>Artist := artist, Path := path\<rparr>"

text \<open>The database of the end-to-end scenario of the spec: one directory, one song.\<close>

definition exampleDatabase :: "node list" where
  "exampleDatabase =
     [Dir ''Music'' ''end: Music''
        [Other ''begin: Music'',
         Song ''chandelier.mp3'' [''Artist: Sia'', ''Title: Chandelier'', ''Time: 215'']]]"

section \<open>The line splitter\<close>

lemma Index_char:
  "Index s [c] = (if c \<in> set s then int (length (takeWhile (\<lambda>x. x \<noteq> c) s)) else -1)"
  by (induction s) (auto simp: Let_def)

lemma takeWhile_until:
  "c \<notin> set k \<Longrightarrow> takeWhile (\<lambda>x. x \<noteq> c) (k @ c # r) = k"
  by (induction k) auto

lemma keyval_no_colon: "CHR '':'' \<notin> set k \<Longrightarrow> keyval k = (k, [])"
  by (simp add: keyval_def Index_char)

lemma keyval_colon_last: "CHR '':'' \<notin> set k \<Longrightarrow> keyval (k @ '':'') = (k @ '':'', [])"
  using takeWhile_until [of "CHR '':''" k "[]"]
  by (simp add: keyval_def Index_char Let_def)

lemma keyval_colon_next:
  "CHR '':'' \<notin> set k \<Longrightarrow> keyval (k @ '':'' @ c # v) = (k, v)"
  using takeWhile_until [of "CHR '':''" k "c # v"]
  by (simp add: keyval_def Index_char Let_def nat_add_distrib)

text \<open>
  C6, as the code has it. The line is divided at its first colon, not at the first
  colon followed by a space: the key is the text before the colon, and the value starts
  two bytes after the colon, so the byte that follows the colon is dropped whatever it
  is (for a line \<open>key: value\<close> whose key has no colon this gives the key and the value).
  A line whose first colon is its last byte, and a line without a colon, are returned
  whole, the colon included, with an empty value.
\<close>

theorem keyval_first_colon:
  "(CHR '':'' \<notin> set k \<longrightarrow> keyval (k @ '': '' @ v) = (k, v)) \<and>
   (CHR '':'' \<notin> set k \<longrightarrow> keyval (k @ '':'' @ c # v) = (k, v)) \<and>
   (CHR '':'' \<notin> set k \<longrightarrow> keyval (k @ '':'') = (k @ '':'', [])) \<and>
   (CHR '':'' \<notin> set k \<longrightarrow> keyval k = (k, []))"
  using keyval_colon_next [of k "CHR '' ''" v] keyval_colon_next [of k c v]
    keyval_colon_last [of k] keyval_no_colon [of k]
  by simp

theorem keyval_first_colon_witness:
  "keyval ''Artist: Sia'' = (''Artist'', ''Sia'') \<and>
   keyval ''mtime:1234'' = (''mtime'', ''234'') \<and>
   keyval ''song_end:'' = (''song_end:'', []) \<and>
   keyval ''song_end'' = (''song_end'', [])"
  using keyval_first_colon [where k = "''Artist''" and v = "''Sia''" and c = "CHR ''x''"]
    keyval_first_colon [where k = "''mtime''" and v = "''234''" and c = "CHR ''1''"]
    keyval_first_colon [where k = "''song_end''" and v = "[]" and c = "CHR ''x''"]
  by simp

text \<open>
  C6 as the claim states it fails: the line \<open>key:\<close> keeps its colon in the key, a colon
  followed by a byte other than a space does not give an empty value, and a line with a
  colon before its first \<open>": "\<close> is not divided at that \<open>": "\<close>.
\<close>

theorem keyval_colon_counterexample:
  "keyval ''key:'' = (''key:'', []) \<and> keyval ''key:'' \<noteq> (''key'', []) \<and>
   keyval ''key:value'' = (''key'', ''alue'') \<and> keyval ''key:value'' \<noteq> (''key'', []) \<and>
   keyval ''a:b: c'' = (''a'', '': c'') \<and> keyval ''a:b: c'' \<noteq> (''a:b'', ''c'')"
  by (simp add: keyval_def)

section \<open>The duration formatter\<close>

lemmas duration_defs = ParseDuration_def durationGroup_def isDigit_def digitVal_def
  notUnitChar_def unitMap_def formatDurationString_def Second_def Hour_def pad2_def
  digitChar_def Let_def

lemma formatDurationString_125: "formatDurationString ''125'' = ''(02:05)''"
  by (simp add: duration_defs)

lemma formatDurationString_3725: "formatDurationString ''3725'' = ''(1:02:05)''"
  by (simp add: duration_defs)

lemma formatDurationString_empty_iff:
  "formatDurationString s = [] \<longleftrightarrow> ParseDuration (s @ ''s'') = None"
  by (simp add: formatDurationString_def Let_def split: option.splits)

text \<open>
  C4, as the code has it: \<open>125\<close> gives \<open>(02:05)\<close>, \<open>3725\<close> gives \<open>(1:02:05)\<close>, and the
  result is the empty string exactly for the inputs that \<open>time.ParseDuration\<close> rejects
  once the unit \<open>s\<close> is appended.
\<close>

theorem formatDurationString_cases:
  "formatDurationString ''125'' = ''(02:05)'' \<and>
   formatDurationString ''3725'' = ''(1:02:05)'' \<and>
   (ParseDuration (s @ ''s'') = None \<longrightarrow> formatDurationString s = []) \<and>
   (formatDurationString s = [] \<longrightarrow> ParseDuration (s @ ''s'') = None)"
  using formatDurationString_125 formatDurationString_3725
    formatDurationString_empty_iff [of s]
  by simp

theorem formatDurationString_cases_witness:
  "ParseDuration ''abcs'' = None \<and> formatDurationString ''abc'' = [] \<and>
   formatDurationString ''215'' \<noteq> [] \<and> ParseDuration ''215s'' \<noteq> None"
  using formatDurationString_cases [of "''abc''"] formatDurationString_cases [of "''215''"]
  by (simp add: duration_defs)

text \<open>
  C4 as the claim states it fails at \<open>-1\<close>: \<open>-1s\<close> is a duration \<open>time.ParseDuration\<close>
  accepts, one second before midnight is 23:59:59, and the result is not empty.
\<close>

theorem formatDurationString_negative_counterexample:
  "formatDurationString ''-1'' = ''(59:59)'' \<and> formatDurationString ''-1'' \<noteq> []"
  by (simp add: duration_defs)

section \<open>Directory-stack underflow\<close>

lemma parseLines_append:
  "parseLines st (xs @ ys) =
     (case parseLines st xs of Inl e \<Rightarrow> Inl e | Inr st' \<Rightarrow> parseLines st' ys)"
  by (induction xs arbitrary: st) (auto split: sum.splits)

lemma parseLine_end_empty:
  "fst (keyval l) = ''end'' \<Longrightarrow> dirs st = [] \<Longrightarrow>
   parseLine st l = Inl (Fatal ''Invalid directory state. Corrupted database?'')"
  by (simp add: parseLine_def Let_def)

lemmas parse_defs = parse_def initState_def parseLine_def keyval_def Let_def newTrack_def
  Track_Set_def

text \<open>
  C3: when the lines before an \<open>end\<close> directive leave the directory stack empty, \<open>parse\<close>
  fails with the message of a corrupted database, whatever lines follow and whatever
  the scanner reports: nothing after that line is parsed.
\<close>

theorem end_underflow_fatal:
  assumes "parseLines initState pre = Inr st" and "dirs st = []"
    and "fst (keyval l) = ''end''"
  shows "parse (pre @ l # post) scanErr =
           Inl (Fatal ''Invalid directory state. Corrupted database?'')"
  using assms by (simp add: parse_def parseLines_append parseLine_end_empty)

theorem end_underflow_fatal_witness:
  "parseLines initState [''directory: a'', ''end: a''] =
     Inr \<lparr>tracks = [], track = newTrack, dirs = []\<rparr> \<and>
   fst (keyval ''end'') = ''end'' \<and>
   parse ([''directory: a'', ''end: a''] @ ''end'' # [''song_begin: x'', ''song_end'']) None =
     Inl (Fatal ''Invalid directory state. Corrupted database?'')"
proof -
  have a: "parseLines initState [''directory: a'', ''end: a''] =
     Inr \<lparr>tracks = [], track = newTrack, dirs = []\<rparr>"
    by (simp add: parse_defs)
  have b: "fst (keyval ''end'') = ''end''"
    by (simp add: keyval_def)
  show ?thesis
    using a b end_underflow_fatal [OF a _ b, of "[''song_begin: x'', ''song_end'']" None]
    by simp
qed

section \<open>The selector's exit status\<close>

text \<open>
  C8: when the run has reached \<open>fzf.Wait()\<close> and the selector exits with status 130, the
  process exits with code 0, \<open>fzfSongs\<close> hands no selection to \<open>main\<close> and no queue tool
  is run; with any other status of a failed exit the process exits with code 1, again
  before any queue tool is run.
\<close>

theorem selector_interrupt:
  assumes "awaitsSelector e" and "fzfWait e = Some (ExitError m (Some status))"
  shows "(status = 130 \<longrightarrow>
            main e = (0, []) \<and> (\<exists>ts. readTracks e = Inr ts \<and> fzfSongs e ts = Inl Cancelled)) \<and>
         (status \<noteq> 130 \<longrightarrow> main e = (1, []))"
  using assms
  by (auto simp: awaitsSelector_def main_def fzfSongs_def fzfCheckExit_def exitCode_def
           split: sum.splits option.splits)

subsection \<open>Evaluation on the concrete inputs\<close>

lemma replicate_numeral_Cons:
  "replicate (numeral k) x = x # replicate (pred_numeral k) x"
  by (simp add: numeral_eq_Suc)

lemmas format_defs = replicate_numeral_Cons trackFormatter_def truncateAndPad_def contentLen_def visibleText_def
  TrimPrefix_def Truncate_def FillRight_def StringWidth_def space_def delimiter_def
  exampleWidth_def exampleTrack_def Let_def

lemmas decode_defs = parseFzfOutput_def outputBlock_def sliceFrom_def newline_def
  delimiter_def Let_def

lemmas run_defs = readTracks_def parse_defs Index_char Clean_def slash_def
  groupByArtist_def exampleEnv_def

text \<open>An instance of C8: the example run with exit status 130 and with exit status 2;
  the same run with a selector that exits normally goes on to the three queue tools.\<close>

theorem selector_interrupt_witness:
  "awaitsSelector (exampleEnv (Some (ExitError ''exit status 130'' (Some 130)))) \<and>
   main (exampleEnv (Some (ExitError ''exit status 130'' (Some 130)))) = (0, []) \<and>
   awaitsSelector (exampleEnv (Some (ExitError ''exit status 2'' (Some 2)))) \<and>
   main (exampleEnv (Some (ExitError ''exit status 2'' (Some 2)))) = (1, []) \<and>
   main (exampleEnv None) =
     (0, [MpcPlaylist, MpcDel [''1''], MpcInsert [''Music/a.mp3'']])"
proof -
  have a: "awaitsSelector (exampleEnv w)" for w
    by (simp add: awaitsSelector_def run_defs format_defs)
  have w: "fzfWait (exampleEnv w) = w" for w
    by (simp add: exampleEnv_def)
  have r: "readTracks (exampleEnv None) = Inr [trackBy ''Sia'' ''Music/a.mp3''\<lparr>Filename := ''a.mp3''\<rparr>]"
    by (simp add: run_defs trackBy_def)
  have n: "main (exampleEnv None) =
     (0, [MpcPlaylist, MpcDel [''1''], MpcInsert [''Music/a.mp3'']])"
    unfolding main_def r
    by (simp add: exampleEnv_def fzfSongs_def fzfCheckExit_def format_defs decode_defs
          trackBy_def newTrack_def removeSongs_def insertSongs_def delPositions_def
          SplitN2_def)
  show ?thesis
    using a n selector_interrupt [OF a w, where m = "''exit status 130''" and status = 130]
      selector_interrupt [OF a w, where m = "''exit status 2''" and status = 2]
    by simp
qed

section \<open>The decoder of the selector's output\<close>

lemma LastIndex_bounds: "- 1 \<le> LastIndex s sub \<and> LastIndex s sub \<le> int (length s)"
  by (induction s) (auto simp: Let_def)

lemma LastIndex_none:
  "sub \<noteq> [] \<Longrightarrow> LastIndex s sub = - 1 \<longleftrightarrow> \<not> sublist sub s"
proof (induction s)
  case Nil
  then show ?case by simp
next
  case (Cons c cs)
  have "- 1 \<le> LastIndex cs sub" using LastIndex_bounds by blast
  with Cons show ?case
    by (auto simp: Let_def sublist_Cons_right)
qed

lemma LastIndex_last:
  assumes "sub \<noteq> []" and "\<not> sublist sub (tl (sub @ p))"
  shows "LastIndex (v @ sub @ p) sub = int (length v)"
proof (induction v)
  case Nil
  from assms(1) obtain a sub' where sub: "sub = a # sub'" by (cases sub) auto
  with assms(2) have "LastIndex (sub' @ p) sub = - 1"
    using LastIndex_none [of sub "sub' @ p"] by simp
  then show ?case by (simp add: sub Let_def)
next
  case (Cons c v)
  then show ?case by (simp add: Let_def)
qed

lemma last_occurrence:
  "sub \<noteq> [] \<Longrightarrow> sublist sub s \<Longrightarrow>
   \<exists>v p. s = v @ sub @ p \<and> \<not> sublist sub (tl (sub @ p))"
proof (induction s)
  case Nil
  then show ?case by simp
next
  case (Cons c cs)
  show ?case
  proof (cases "sublist sub cs")
    case True
    with Cons obtain v p where "cs = v @ sub @ p" "\<not> sublist sub (tl (sub @ p))" by blast
    then have "c # cs = (c # v) @ sub @ p \<and> \<not> sublist sub (tl (sub @ p))" by simp
    then show ?thesis by blast
  next
    case False
    with Cons.prems have "prefix sub (c # cs)" by (simp add: sublist_Cons_right)
    then obtain p where p: "c # cs = sub @ p" by (auto simp: prefix_def)
    with False have "c # cs = [] @ sub @ p \<and> \<not> sublist sub (tl (sub @ p))"
      by (metis append_Nil list.sel(3))
    then show ?thesis by blast
  qed
qed

lemma decode_after_last:
  assumes "\<not> sublist delimiter (tl (delimiter @ p))"
  shows "sliceFrom (v @ delimiter @ p) (LastIndex (v @ delimiter @ p) delimiter
            + int (length delimiter)) = Inr p"
proof -
  have "delimiter \<noteq> []" by (simp add: delimiter_def)
  then have "LastIndex (v @ delimiter @ p) delimiter = int (length v)"
    using assms by (rule LastIndex_last)
  then show ?thesis
    by (simp add: sliceFrom_def nat_add_distrib)
qed

lemma no_later_delimiter:
  assumes "p = [] \<or> hd p \<noteq> slash" and "\<not> sublist delimiter p"
  shows "\<not> sublist delimiter (tl (delimiter @ p))"
  using assms
  by (cases p) (auto simp: delimiter_def slash_def sublist_Cons_right)

lemma Split_line:
  "sep \<notin> set l \<Longrightarrow> Split (l @ sep # rest) sep = l # Split rest sep"
  by (induction l) (auto split: list.splits)

lemma Split_lines:
  "\<forall>l\<in>set ls. sep \<notin> set l \<Longrightarrow> Split (concat (map (\<lambda>l. l @ [sep]) ls)) sep = ls @ [Nil]"
  by (induction ls) (auto simp: Split_line)

lemma decodeLines_length: "decodeLines ls = Inr ps \<Longrightarrow> length ps = length ls"
  by (induction ls arbitrary: ps) (auto split: sum.splits)

lemma parseFzfOutput_blockLines:
  "hd (Split out newline) \<noteq> [] \<Longrightarrow> parseFzfOutput out = decodeLines (blockLines out)"
  by (auto simp: parseFzfOutput_def blockLines_def Let_def)

lemma decodeLines_delimited:
  "\<forall>l\<in>set ls. sublist delimiter l \<Longrightarrow>
   \<exists>qs. decodeLines ls = Inr qs \<and>
        list_all2 (\<lambda>l q. \<exists>v. l = v @ delimiter @ q \<and> \<not> sublist delimiter (tl (delimiter @ q)))
          ls qs"
proof (induction ls)
  case Nil
  then show ?case by simp
next
  case (Cons l ls)
  have ne: "delimiter \<noteq> []" by (simp add: delimiter_def)
  from Cons.prems have "sublist delimiter l" by simp
  from last_occurrence [OF ne this] obtain v p
    where l: "l = v @ delimiter @ p" and p: "\<not> sublist delimiter (tl (delimiter @ p))"
    by blast
  from Cons obtain qs where qs: "decodeLines ls = Inr qs"
    "list_all2 (\<lambda>l q. \<exists>v. l = v @ delimiter @ q \<and> \<not> sublist delimiter (tl (delimiter @ q)))
       ls qs"
    by auto
  have "decodeLines (l # ls) = Inr (p # qs)"
    using decode_after_last [OF p, of v] qs(1) by (simp add: l)
  with l p qs(2) show ?case by auto
qed

text \<open>
  C7, as the code has it. No line of the block is skipped: when the first line is not
  empty and the decoder returns, it returns exactly one entry for every line of the
  block, a line without the delimiter included; and when every line contains the
  delimiter the decoder does return, each entry being the text after the last
  occurrence of the delimiter in its line.
\<close>

theorem decoder_skips_no_line:
  assumes "hd (Split out newline) \<noteq> []"
  shows "(parseFzfOutput out = Inr ps \<longrightarrow> length ps = length (blockLines out)) \<and>
         ((\<forall>l\<in>set (blockLines out). sublist delimiter l) \<longrightarrow>
            (\<exists>qs. parseFzfOutput out = Inr qs \<and>
                  list_all2 (\<lambda>l q. \<exists>v. l = v @ delimiter @ q \<and>
                                      \<not> sublist delimiter (tl (delimiter @ q)))
                    (blockLines out) qs))"
  using assms decodeLines_delimited [of "blockLines out"]
  by (auto simp: parseFzfOutput_blockLines dest: decodeLines_length)

text \<open>An instance of C7: a block of two lines, the second with two delimiters.\<close>

theorem decoder_skips_no_line_witness:
  "hd (Split (outputBlock [''a////p'', ''b////c////q'']) newline) \<noteq> [] \<and>
   blockLines (outputBlock [''a////p'', ''b////c////q'']) = [''a////p'', ''b////c////q''] \<and>
   sublist delimiter ''a////p'' \<and> sublist delimiter ''b////c////q'' \<and>
   parseFzfOutput (outputBlock [''a////p'', ''b////c////q'']) = Inr [''p'', ''q'']"
proof -
  have h: "hd (Split (outputBlock [''a////p'', ''b////c////q'']) newline) \<noteq> []"
    by (simp add: outputBlock_def newline_def)
  have b: "blockLines (outputBlock [''a////p'', ''b////c////q'']) = [''a////p'', ''b////c////q'']"
    by (simp add: blockLines_def outputBlock_def newline_def)
  have s: "sublist delimiter ''a////p'' \<and> sublist delimiter ''b////c////q''"
    by (simp add: delimiter_def sublist_Cons_right)
  have r: "parseFzfOutput (outputBlock [''a////p'', ''b////c////q'']) = Inr [''p'', ''q'']"
    by (simp add: decode_defs)
  from decoder_skips_no_line [OF h, of "[''p'', ''q'']"] h b s r
  show ?thesis by simp
qed

text \<open>
  C7 as the claim states it fails: a line without the delimiter is not skipped. With
  three bytes or more it contributes its text from the fourth byte on (\<open>LastIndex\<close> is
  \<open>-1\<close>, the slice starts at \<open>-1 + 4\<close>); with fewer the slice expression panics and no
  line of the block is decoded.
\<close>

theorem decoder_skip_counterexample:
  "parseFzfOutput (outputBlock [''abcdef'', ''v////p'']) = Inr [''def'', ''p''] \<and>
   parseFzfOutput (outputBlock [''v////p'', ''ab'']) = Inl (Panic ''slice bounds out of range'')"
  by (simp add: decode_defs)

text \<open>
  C10: a block whose first line is empty, in particular one that begins with a newline,
  decodes to the empty sequence whatever lines follow; for any other block the decoder,
  when it returns, returns one entry per line but for a single empty last line.
\<close>

theorem parseFzfOutput_empty_first_line:
  "(hd (Split out newline) = [] \<longrightarrow> parseFzfOutput out = Inr []) \<and>
   parseFzfOutput (newline # rest) = Inr [] \<and>
   (hd (Split out newline) \<noteq> [] \<and> parseFzfOutput out = Inr ps \<longrightarrow>
      length ps = length (Split out newline) - (if last (Split out newline) = [] then 1 else 0))"
  by (auto simp: parseFzfOutput_def Let_def dest: decodeLines_length)

text \<open>An instance of C10: a well-formed line after a leading newline is discarded; the
  same line alone is decoded, its final newline leaving one empty line that is dropped.\<close>

theorem parseFzfOutput_empty_first_line_witness:
  "hd (Split (newline # outputBlock [''v////p'']) newline) = [] \<and>
   parseFzfOutput (newline # outputBlock [''v////p'']) = Inr [] \<and>
   hd (Split (outputBlock [''v////p'']) newline) \<noteq> [] \<and>
   parseFzfOutput (outputBlock [''v////p'']) = Inr [''p''] \<and>
   length (Split (outputBlock [''v////p'']) newline) = 2 \<and>
   last (Split (outputBlock [''v////p'']) newline) = []"
  using parseFzfOutput_empty_first_line [of "newline # outputBlock [''v////p'']" "[]" "[]"]
    parseFzfOutput_empty_first_line [of "outputBlock [''v////p'']" "[]" "[''p'']"]
  by (simp add: decode_defs)

section \<open>Encoding and decoding a display line\<close>

lemma outputBlock_lines:
  assumes "\<forall>l\<in>set ls. newline \<notin> set l" and "ls \<noteq> []" and "hd ls \<noteq> []"
  shows "parseFzfOutput (outputBlock ls) = decodeLines ls"
proof -
  have "Split (outputBlock ls) newline = ls @ [Nil]"
    using assms(1) unfolding outputBlock_def by (rule Split_lines)
  with assms(2,3) show ?thesis
    by (simp add: parseFzfOutput_def Let_def)
qed

lemma trackFormatter_shape:
  "trackFormatter rw width t = Inr l \<Longrightarrow> \<exists>v. l = v @ delimiter @ Path t"
  by (auto simp: trackFormatter_def split: sum.splits)

lemma decodeLines_formatAll:
  assumes "formatAll rw width ts = Inr ls"
    and "\<forall>t\<in>set ts. \<not> sublist delimiter (tl (delimiter @ Path t))"
  shows "decodeLines ls = Inr (map Path ts)"
  using assms
proof (induction ts arbitrary: ls)
  case Nil
  then show ?case by simp
next
  case (Cons t ts)
  from Cons.prems(1) obtain l ls' where l: "trackFormatter rw width t = Inr l"
    and ls': "formatAll rw width ts = Inr ls'" and ls: "ls = l # ls'"
    by (auto split: sum.splits)
  from trackFormatter_shape [OF l] obtain v where v: "l = v @ delimiter @ Path t" by blast
  have "\<not> sublist delimiter (tl (delimiter @ Path t))" using Cons.prems(2) by simp
  from decode_after_last [OF this, of v]
  have "sliceFrom l (LastIndex l delimiter + int (length delimiter)) = Inr (Path t)"
    by (simp add: v)
  moreover have "decodeLines ls' = Inr (map Path ts)"
    using Cons.IH [OF ls'] Cons.prems(2) by simp
  ultimately show ?case by (simp add: ls)
qed

text \<open>
  C1, as the code has it. For chosen tracks \<open>ts\<close> whose lines are formatted without
  panic and contain no newline, and whose paths neither begin with \<open>/\<close> nor contain the
  delimiter, decoding the block of their lines gives back exactly their paths, in
  order, whatever the other fields hold; and in each such line the last occurrence of
  the delimiter is the one the encoder wrote before the path.
\<close>

theorem encode_decode_roundtrip:
  assumes "formatAll rw width ts = Inr ls" and "ts \<noteq> []"
    and "\<forall>l\<in>set ls. newline \<notin> set l"
    and "\<forall>t\<in>set ts. (Path t = [] \<or> hd (Path t) \<noteq> slash) \<and> \<not> sublist delimiter (Path t)"
  shows "parseFzfOutput (outputBlock ls) = Inr (map Path ts) \<and>
         (\<forall>t\<in>set ts. \<forall>l. trackFormatter rw width t = Inr l \<longrightarrow>
            LastIndex l delimiter = int (length l) - int (length (Path t)) - int (length delimiter))"
proof -
  have clean: "\<forall>t\<in>set ts. \<not> sublist delimiter (tl (delimiter @ Path t))"
    using assms(4) no_later_delimiter by blast
  obtain t ts' where ts: "ts = t # ts'" using assms(2) by (cases ts) auto
  with assms(1) obtain l ls' where "trackFormatter rw width t = Inr l" "ls = l # ls'"
    by (auto split: sum.splits)
  with trackFormatter_shape [of rw width t l] have "ls \<noteq> []" "hd ls \<noteq> []"
    by (auto simp: delimiter_def)
  with assms(3) have "parseFzfOutput (outputBlock ls) = decodeLines ls"
    by (simp add: outputBlock_lines)
  then have a: "parseFzfOutput (outputBlock ls) = Inr (map Path ts)"
    using decodeLines_formatAll [OF assms(1) clean] by simp
  have b: "LastIndex l delimiter = int (length l) - int (length (Path t)) - int (length delimiter)"
    if "t \<in> set ts" and "trackFormatter rw width t = Inr l" for t l
  proof -
    from trackFormatter_shape [OF that(2)] obtain v where v: "l = v @ delimiter @ Path t"
      by blast
    have "delimiter \<noteq> []" by (simp add: delimiter_def)
    from LastIndex_last [OF this, of "Path t" v] clean that(1)
    show ?thesis by (simp add: v)
  qed
  from a b show ?thesis by blast
qed

text \<open>An instance of C1: the title itself contains the delimiter, the path contains a
  space, an exclamation mark and two wide characters.\<close>

theorem encode_decode_roundtrip_witness:
  "formatAll exampleWidth 30 [exampleTrack ''x////y'' ''Music/WW/a b!.mp3''] =
     Inr [''A - x////y {B}    (02:05)////Music/WW/a b!.mp3''] \<and>
   newline \<notin> set ''A - x////y {B}    (02:05)////Music/WW/a b!.mp3'' \<and>
   hd ''Music/WW/a b!.mp3'' \<noteq> slash \<and>
   \<not> sublist delimiter ''Music/WW/a b!.mp3'' \<and>
   parseFzfOutput (outputBlock [''A - x////y {B}    (02:05)////Music/WW/a b!.mp3'']) =
     Inr [''Music/WW/a b!.mp3''] \<and>
   LastIndex ''A - x////y {B}    (02:05)////Music/WW/a b!.mp3'' delimiter = 25"
proof -
  have f: "formatAll exampleWidth 30 [exampleTrack ''x////y'' ''Music/WW/a b!.mp3''] =
     Inr [''A - x////y {B}    (02:05)////Music/WW/a b!.mp3'']"
    by (simp add: format_defs)
  have p: "Path (exampleTrack ''x////y'' ''Music/WW/a b!.mp3'') = ''Music/WW/a b!.mp3''"
    by (simp add: exampleTrack_def)
  have t: "trackFormatter exampleWidth 30 (exampleTrack ''x////y'' ''Music/WW/a b!.mp3'') =
     Inr ''A - x////y {B}    (02:05)////Music/WW/a b!.mp3''"
    by (simp add: format_defs)
  have n: "newline \<notin> set ''A - x////y {B}    (02:05)////Music/WW/a b!.mp3''"
    by (simp add: newline_def)
  have s: "\<not> sublist delimiter ''Music/WW/a b!.mp3''"
    by (simp add: delimiter_def sublist_Cons_right)
  have h: "hd ''Music/WW/a b!.mp3'' \<noteq> slash"
    by (simp add: slash_def)
  from encode_decode_roundtrip [OF f] n s h p t
  show ?thesis
    using f by (simp add: delimiter_def)
qed

text \<open>
  C1 as the claim states it fails for paths without a newline: a path that begins with
  \<open>/\<close> loses that byte (the delimiter and the path form a run of five slashes, whose last
  four are found), and a path that contains the delimiter loses everything up to it.
  Nor does it hold regardless of the other fields: a title with a newline makes two
  lines of the one track, and a duration text longer than the content width makes the
  formatter panic.
\<close>

theorem encode_decode_roundtrip_counterexample:
  "trackFormatter exampleWidth 30 (exampleTrack ''T'' ''/x'') =
     Inr ''A - T {B}         (02:05)/////x'' \<and>
   parseFzfOutput (outputBlock [''A - T {B}         (02:05)/////x'']) = Inr [''x''] \<and>
   trackFormatter exampleWidth 30 (exampleTrack ''T'' ''a////b'') =
     Inr ''A - T {B}         (02:05)////a////b'' \<and>
   parseFzfOutput (outputBlock [''A - T {B}         (02:05)////a////b'']) = Inr [''b''] \<and>
   trackFormatter exampleWidth 30 (exampleTrack [CHR ''T'', newline, CHR ''U''] ''p'') =
     Inr (''A - T'' @ [newline] @ ''U {B}       (02:05)////p'') \<and>
   parseFzfOutput (outputBlock [''A - T'' @ [newline] @ ''U {B}       (02:05)////p'']) =
     Inr ['' T'', ''p''] \<and>
   trackFormatter exampleWidth 30
       ((exampleTrack ''T'' ''p'')\<lparr>Time := ''012345678901234567890123456789''\<rparr>) =
     Inl (Panic ''suffix length greater than maxWidth chars'')"
  by (simp add: format_defs decode_defs)

section \<open>Truncating and padding to a width\<close>

lemma StringWidth_append: "StringWidth rw (a @ b) = StringWidth rw a + StringWidth rw b"
  by (simp add: StringWidth_def)

lemma StringWidth_spaces: "StringWidth rw (replicate n space) = n * rw space"
  by (induction n) (auto simp: StringWidth_def)

lemma takeWidth_width: "0 \<le> w \<Longrightarrow> int (StringWidth rw (takeWidth rw s w)) \<le> w"
proof (induction s arbitrary: w)
  case Nil
  then show ?case by (simp add: StringWidth_def)
next
  case (Cons c cs)
  show ?case
  proof (cases "int (rw c) > w")
    case True
    with Cons.prems show ?thesis by (simp add: StringWidth_def)
  next
    case False
    then have "0 \<le> w - int (rw c)" by simp
    from Cons.IH [OF this] False show ?thesis by (simp add: StringWidth_def)
  qed
qed

lemma takeWidth_take: "\<exists>k. takeWidth rw s w = take k s"
proof (induction s arbitrary: w)
  case Nil
  then show ?case by simp
next
  case (Cons c cs)
  obtain k where "takeWidth rw cs (w - int (rw c)) = take k cs" using Cons by blast
  then have "takeWidth rw (c # cs) w = take (if int (rw c) > w then 0 else Suc k) (c # cs)"
    by simp
  then show ?case by blast
qed

lemma Truncate_width:
  assumes "0 \<le> N" and "int (StringWidth rw s) \<le> N \<or> int (StringWidth rw sfx) \<le> N"
  shows "int (StringWidth rw (Truncate rw s N sfx)) \<le> N"
  using assms takeWidth_width [of "N - int (StringWidth rw sfx)" rw s]
  by (auto simp: Truncate_def StringWidth_append)

lemma Truncate_shape:
  "\<exists>k. Truncate rw s N sfx = take k s @ (if int (StringWidth rw s) \<le> N then [] else sfx)"
proof (cases "int (StringWidth rw s) \<le> N")
  case True
  then have "Truncate rw s N sfx = take (length s) s @ []" by (simp add: Truncate_def)
  with True show ?thesis by (metis (full_types))
next
  case False
  obtain k where "takeWidth rw s (N - int (StringWidth rw sfx)) = take k s"
    using takeWidth_take by blast
  with False show ?thesis by (auto simp: Truncate_def)
qed

lemma FillRight_width:
  "rw space = 1 \<Longrightarrow> int (StringWidth rw x) \<le> N \<Longrightarrow> int (StringWidth rw (FillRight rw x N)) = N"
  by (auto simp: FillRight_def Let_def StringWidth_append StringWidth_spaces)

lemma FillRight_shape: "\<exists>n. FillRight rw x N = x @ replicate n space"
proof (cases "N - int (StringWidth rw x) > 0")
  case True
  then show ?thesis by (auto simp: FillRight_def Let_def)
next
  case False
  then have "FillRight rw x N = x @ replicate 0 space" by (simp add: FillRight_def Let_def)
  then show ?thesis by blast
qed

text \<open>
  C9, as the model of the width functions has it. When a space takes one column, the
  target width \<open>N\<close> is not negative, and the string or else the ellipsis fits in \<open>N\<close>
  columns, \<open>truncateAndPad\<close> returns a string of exactly \<open>N\<close> columns: a prefix of the
  characters of \<open>s\<close> (no character is cut), the ellipsis when \<open>s\<close> was too wide, then
  spaces; the truncated text with its ellipsis takes at most \<open>N\<close> columns.
\<close>

theorem truncateAndPad_exact_width:
  assumes "rw space = 1" and "0 \<le> N"
    and "int (StringWidth rw s) \<le> N \<or> int (StringWidth rw sfx) \<le> N"
  shows "\<exists>r. truncateAndPad rw s N sfx = Inr r \<and> int (StringWidth rw r) = N \<and>
             int (StringWidth rw (Truncate rw s N sfx)) \<le> N \<and>
             (\<exists>k n. r = take k s @ (if int (StringWidth rw s) \<le> N then [] else sfx)
                          @ replicate n space)"
proof -
  have w: "int (StringWidth rw (Truncate rw s N sfx)) \<le> N"
    using assms(2,3) by (rule Truncate_width)
  obtain k where k: "Truncate rw s N sfx =
      take k s @ (if int (StringWidth rw s) \<le> N then [] else sfx)"
    using Truncate_shape by blast
  obtain n where n: "FillRight rw (Truncate rw s N sfx) N = Truncate rw s N sfx @ replicate n space"
    using FillRight_shape by blast
  have "truncateAndPad rw s N sfx = Inr (FillRight rw (Truncate rw s N sfx) N)"
    using assms(2) by (simp add: truncateAndPad_def)
  moreover have "int (StringWidth rw (FillRight rw (Truncate rw s N sfx) N)) = N"
    using assms(1) w by (rule FillRight_width)
  moreover have "FillRight rw (Truncate rw s N sfx) N =
      take k s @ (if int (StringWidth rw s) \<le> N then [] else sfx) @ replicate n space"
    using n k by simp
  ultimately show ?thesis using w by blast
qed

text \<open>An instance of C9: five columns, where the cut falls before a wide character.\<close>

theorem truncateAndPad_exact_width_witness:
  "exampleWidth space = 1 \<and> (0::int) \<le> 5 \<and>
   int (StringWidth exampleWidth ''..'') \<le> 5 \<and>
   truncateAndPad exampleWidth ''abWWc'' 5 ''..'' = Inr ''ab.. '' \<and>
   StringWidth exampleWidth ''ab.. '' = 5"
  using truncateAndPad_exact_width [of exampleWidth 5 "''abWWc''" "''..''"]
  by (simp add: format_defs)

text \<open>
  C9 as the claim states it fails for a width below that of the ellipsis: a string wider
  than one column is replaced by the whole ellipsis, two columns wide.
\<close>

theorem truncateAndPad_narrow_counterexample:
  "truncateAndPad exampleWidth ''abc'' 1 ''..'' = Inr ''..'' \<and>
   StringWidth exampleWidth ''..'' = 2"
  by (simp add: format_defs)

section \<open>Grouping by artist\<close>

lemma artistsOf_lookup:
  "artistsOf ts m a =
     (if filter (\<lambda>t. Artist t = a) ts = [] then m a
      else Some ((case m a of None \<Rightarrow> [] | Some b \<Rightarrow> b) @ filter (\<lambda>t. Artist t = a) ts))"
  by (induction ts arbitrary: m) auto

lemma artistsOf_empty:
  "artistsOf ts Map.empty a =
     (if filter (\<lambda>t. Artist t = a) ts = [] then None
      else Some (filter (\<lambda>t. Artist t = a) ts))"
  by (simp add: artistsOf_lookup)

lemma bucket_filter:
  "(case artistsOf ts Map.empty a of None \<Rightarrow> [] | Some b \<Rightarrow> b) = filter (\<lambda>t. Artist t = a) ts"
  by (simp add: artistsOf_empty)

lemma groupByArtist_buckets:
  "groupByArtist order ts = concat (map (\<lambda>a. filter (\<lambda>t. Artist t = a) ts) order)"
  by (simp add: groupByArtist_def bucket_filter)

lemma dom_artistsOf: "dom (artistsOf ts Map.empty) = Artist ` set ts"
proof -
  have "a \<in> dom (artistsOf ts Map.empty) \<longleftrightarrow> a \<in> Artist ` set ts" for a
    by (auto simp: artistsOf_empty dom_def filter_empty_conv)
  then show ?thesis by blast
qed

lemma filter_buckets:
  "distinct order \<Longrightarrow>
   filter (\<lambda>t. f t = a) (concat (map (\<lambda>b. filter (\<lambda>t. f t = b) ts) order)) =
     (if a \<in> set order then filter (\<lambda>t. f t = a) ts else [])"
proof (induction order)
  case Nil
  then show ?case by simp
next
  case (Cons b order)
  have eq: "filter (\<lambda>t. f t = b \<and> f t = a) ts =
            (if a = b then filter (\<lambda>t. f t = a) ts else [])"
    by (induction ts) auto
  from Cons show ?case by (auto simp: eq)
qed

lemma concat_buckets_member:
  "t \<in> set (concat (map (\<lambda>b. filter (\<lambda>t. f t = b) ts) order)) \<Longrightarrow> f t \<in> set order"
  by auto

lemma buckets_contiguous:
  assumes "distinct order"
  shows "i < j \<Longrightarrow> j < k \<Longrightarrow>
         k < length (concat (map (\<lambda>b. filter (\<lambda>t. f t = b) ts) order)) \<Longrightarrow>
         f (concat (map (\<lambda>b. filter (\<lambda>t. f t = b) ts) order) ! i) =
         f (concat (map (\<lambda>b. filter (\<lambda>t. f t = b) ts) order) ! k) \<Longrightarrow>
         f (concat (map (\<lambda>b. filter (\<lambda>t. f t = b) ts) order) ! j) =
         f (concat (map (\<lambda>b. filter (\<lambda>t. f t = b) ts) order) ! i)"
  using assms
proof (induction order arbitrary: i j k)
  case Nil
  then show ?case by simp
next
  case (Cons b order)
  define B where "B = filter (\<lambda>t. f t = b) ts"
  define R where "R = concat (map (\<lambda>b. filter (\<lambda>t. f t = b) ts) order)"
  have out: "concat (map (\<lambda>b. filter (\<lambda>t. f t = b) ts) (b # order)) = B @ R"
    by (simp add: B_def R_def)
  have inB: "f (B ! n) = b" if "n < length B" for n
    using nth_mem [OF that] by (simp add: B_def)
  have inR: "f (R ! n) \<noteq> b" if "n < length R" for n
  proof -
    have "f (R ! n) \<in> set order"
      using nth_mem [OF that] unfolding R_def by (rule concat_buckets_member)
    with Cons.prems(5) show ?thesis by auto
  qed
  have d: "distinct order" using Cons.prems(5) by simp
  from Cons.prems(3) have kl: "k < length B + length R" unfolding out by simp
  show ?case
  proof (cases "k < length B")
    case True
    with Cons.prems(1,2) show ?thesis
      unfolding out by (simp add: nth_append inB)
  next
    case kB: False
    show ?thesis
    proof (cases "i < length B")
      case True
      have "f ((B @ R) ! i) = b" using True by (simp add: nth_append inB)
      moreover have "f ((B @ R) ! k) \<noteq> b"
        using kB kl by (simp add: nth_append inR)
      ultimately show ?thesis using Cons.prems(4) unfolding out by simp
    next
      case False
      with Cons.prems(1,2) kB have ge: "\<not> j < length B" by simp
      have "f (R ! (j - length B)) = f (R ! (i - length B))"
      proof (rule Cons.IH [unfolded R_def [symmetric], of "i - length B" "j - length B"
              "k - length B"])
        show "i - length B < j - length B" using False Cons.prems(1) by simp
        show "j - length B < k - length B" using ge Cons.prems(2) by simp
        show "k - length B < length R" using kB kl by simp
        show "f (R ! (i - length B)) = f (R ! (k - length B))"
          using Cons.prems(4) False kB unfolding out by (simp add: nth_append)
        show "distinct order" by (rule d)
      qed
      with False ge show ?thesis unfolding out by (simp add: nth_append)
    qed
  qed
qed

text \<open>
  C5: whatever order the map of artists is ranged over (any enumeration of its keys,
  each once), two tracks of the output with the same artist have only tracks of that
  artist between them, and for every artist the tracks of that artist appear in the
  output exactly as they appear in the input, in the same relative order.
\<close>

theorem groupByArtist_contiguous_stable:
  assumes "iterationOrder (artistsOf ts Map.empty) order"
  shows "(\<forall>i j k. i < j \<and> j < k \<and> k < length (groupByArtist order ts) \<and>
            Artist (groupByArtist order ts ! i) = Artist (groupByArtist order ts ! k) \<longrightarrow>
            Artist (groupByArtist order ts ! j) = Artist (groupByArtist order ts ! i)) \<and>
         (\<forall>a. filter (\<lambda>t. Artist t = a) (groupByArtist order ts) =
              filter (\<lambda>t. Artist t = a) ts)"
proof -
  from assms have d: "distinct order" and s: "set order = Artist ` set ts"
    by (simp_all add: iterationOrder_def dom_artistsOf)
  have a: "Artist (groupByArtist order ts ! j) = Artist (groupByArtist order ts ! i)"
    if "i < j" "j < k" "k < length (groupByArtist order ts)"
      "Artist (groupByArtist order ts ! i) = Artist (groupByArtist order ts ! k)" for i j k
    using buckets_contiguous [OF d, of i j k Artist ts] that
    by (simp add: groupByArtist_buckets)
  have b: "filter (\<lambda>t. Artist t = a) (groupByArtist order ts) = filter (\<lambda>t. Artist t = a) ts"
    for a
  proof (cases "a \<in> set order")
    case True
    then show ?thesis by (simp add: groupByArtist_buckets filter_buckets [OF d])
  next
    case False
    with s have "filter (\<lambda>t. Artist t = a) ts = []"
      by (auto simp: filter_empty_conv)
    with False show ?thesis by (simp add: groupByArtist_buckets filter_buckets [OF d])
  qed
  from a b show ?thesis by blast
qed

text \<open>An instance of C5: three tracks of two artists, the map ranged over from \<open>B\<close> to
  \<open>A\<close>.\<close>

theorem groupByArtist_contiguous_stable_witness:
  "iterationOrder
     (artistsOf [trackBy ''A'' ''1'', trackBy ''B'' ''2'', trackBy ''A'' ''3''] Map.empty)
     [''B'', ''A''] \<and>
   groupByArtist [''B'', ''A''] [trackBy ''A'' ''1'', trackBy ''B'' ''2'', trackBy ''A'' ''3''] =
     [trackBy ''B'' ''2'', trackBy ''A'' ''1'', trackBy ''A'' ''3'']"
proof -
  have a: "iterationOrder
     (artistsOf [trackBy ''A'' ''1'', trackBy ''B'' ''2'', trackBy ''A'' ''3''] Map.empty)
     [''B'', ''A'']"
    by (auto simp: iterationOrder_def trackBy_def newTrack_def)
  from groupByArtist_contiguous_stable [OF a] a show ?thesis
    by (simp add: groupByArtist_def trackBy_def newTrack_def)
qed

section \<open>The parser on a valid database\<close>

lemma Split_no_sep: "sep \<notin> set s \<Longrightarrow> Split s sep = [s]"
  by (induction s) auto

lemma Split_JoinSep:
  "\<forall>s\<in>set segs. sep \<notin> set s \<Longrightarrow> segs \<noteq> [] \<Longrightarrow> Split (JoinSep segs sep) sep = segs"
proof (induction segs sep rule: JoinSep.induct)
  case (1 sep)
  then show ?case by simp
next
  case (2 x sep)
  then show ?case by (simp add: Split_no_sep)
next
  case (3 x y ys sep)
  then show ?case by (simp add: Split_line)
qed

lemma cleanElems_valid:
  "\<forall>s\<in>set segs. validName s \<Longrightarrow> cleanElems rooted out segs = out @ segs"
proof (induction segs arbitrary: out)
  case Nil
  then show ?case by simp
next
  case (Cons e es)
  then have "e \<noteq> []" "e \<noteq> ''.''" "e \<noteq> ''..''" "\<forall>s\<in>set es. validName s"
    by (simp_all add: validName_def)
  with Cons.IH [of "out @ [e]"] show ?case by simp
qed

lemma JoinSep_nonempty: "segs \<noteq> [] \<Longrightarrow> hd segs \<noteq> [] \<Longrightarrow> JoinSep segs sep \<noteq> [] \<and> hd (JoinSep segs sep) = hd (hd segs)"
  by (induction segs sep rule: JoinSep.induct) auto

lemma Join_valid:
  assumes "\<forall>s\<in>set segs. validName s" and "segs \<noteq> []"
  shows "Join segs = JoinSep segs slash"
proof -
  obtain e es where segs: "segs = e # es" using assms(2) by (cases segs) auto
  with assms(1) have "validName e" by simp
  then have e1: "e \<noteq> []" and e2: "slash \<notin> set e" by (simp_all add: validName_def)
  from e1 e2 have e3: "hd e \<noteq> slash" by (cases e) auto
  note e = e1 e3
  have ne: "JoinSep segs slash \<noteq> []" and hd: "hd (JoinSep segs slash) = hd e"
    using JoinSep_nonempty [of segs slash] e segs by auto
  have sp: "Split (JoinSep segs slash) slash = segs"
    using assms by (intro Split_JoinSep) (auto simp: validName_def)
  have "Clean (JoinSep segs slash) = JoinSep segs slash"
    using ne hd e sp assms(1) by (simp add: Clean_def Let_def cleanElems_valid)
  with e segs show ?thesis by simp
qed

lemma keyval_directive:
  "CHR '':'' \<notin> set key \<Longrightarrow> keyval (directive key val) = (key, val)"
  using keyval_colon_next [of key "CHR '' ''" val] by (simp add: directive_def)

lemma keyval_song_end: "keyval ''song_end'' = (''song_end'', [])"
  using keyval_no_colon [of "''song_end''"] by simp

lemma parseLine_song_begin:
  "parseLine st (directive ''song_begin'' f) =
     Inr (st\<lparr>track := (track st)\<lparr>Filename := f, Path := Join (dirs st @ [f])\<rparr>\<rparr>)"
  by (simp add: parseLine_def keyval_directive Let_def)

lemma parseLine_directory:
  "parseLine st (directive ''directory'' d) = Inr (st\<lparr>dirs := dirs st @ [d]\<rparr>)"
  by (simp add: parseLine_def keyval_directive Let_def)

lemma parseLine_song_end:
  "parseLine st ''song_end'' = Inr (st\<lparr>tracks := tracks st @ [track st], track := newTrack\<rparr>)"
  by (simp add: parseLine_def keyval_song_end Let_def)

lemma parseLine_end:
  "fst (keyval e) = ''end'' \<Longrightarrow> dirs st \<noteq> [] \<Longrightarrow>
   parseLine st e = Inr (st\<lparr>dirs := butlast (dirs st)\<rparr>)"
  by (simp add: parseLine_def Let_def)

lemma Path_Track_Set: "Path (Track_Set t k v) = Path t"
  by (simp add: Track_Set_def)

lemma parseLine_other:
  assumes "\<not> isDirective (fst (keyval l))"
  shows "\<exists>tr. parseLine st l = Inr (st\<lparr>track := tr\<rparr>) \<and> Path tr = Path (track st)"
proof (cases "fst (keyval l) \<in> set [''Artist'', ''Album'', ''Date'', ''Genre'', ''Time'', ''Title'']")
  case True
  with assms have "parseLine st l =
      Inr (st\<lparr>track := Track_Set (track st) (fst (keyval l)) (snd (keyval l))\<rparr>)"
    by (auto simp: parseLine_def Let_def isDirective_def)
  then show ?thesis using Path_Track_Set by blast
next
  case False
  with assms have "parseLine st l = Inr (st\<lparr>track := track st\<rparr>)"
    by (auto simp: parseLine_def Let_def isDirective_def)
  then show ?thesis by blast
qed

lemma parseLines_body:
  "\<forall>l\<in>set body. \<not> isDirective (fst (keyval l)) \<Longrightarrow>
   \<exists>tr. parseLines st body = Inr (st\<lparr>track := tr\<rparr>) \<and> Path tr = Path (track st)"
proof (induction body arbitrary: st)
  case Nil
  have "parseLines st [] = Inr (st\<lparr>track := track st\<rparr>)" by simp
  then show ?case by blast
next
  case (Cons l body)
  from Cons.prems have "\<not> isDirective (fst (keyval l))" by simp
  from parseLine_other [OF this, of st] obtain tr
    where tr: "parseLine st l = Inr (st\<lparr>track := tr\<rparr>)" "Path tr = Path (track st)"
    by blast
  from Cons.IH [of "st\<lparr>track := tr\<rparr>"] Cons.prems obtain tr'
    where tr': "parseLines (st\<lparr>track := tr\<rparr>) body = Inr (st\<lparr>track := tr\<rparr>\<lparr>track := tr'\<rparr>)"
      "Path tr' = Path tr"
    by auto
  have "parseLines st (l # body) = Inr (st\<lparr>track := tr'\<rparr>)"
    using tr(1) tr'(1) by simp
  with tr(2) tr'(2) show ?case by auto
qed

lemma songEnds_append: "songEnds (xs @ ys) = songEnds xs + songEnds ys"
  by (simp add: songEnds_def)

lemma songEnds_body:
  "\<forall>l\<in>set body. \<not> isDirective (fst (keyval l)) \<Longrightarrow> songEnds body = 0"
  by (auto simp: songEnds_def isDirective_def filter_empty_conv)

lemma parsesTo_song:
  assumes "validNode (Song f body)" and "namesValid st"
  shows "parsesTo st (render (Song f body)) (songPaths (dirs st) (Song f body))"
proof -
  from assms(1) have f: "validName f"
    and body: "\<forall>l\<in>set body. \<not> isDirective (fst (keyval l))" by simp_all
  define st1 where "st1 = st\<lparr>track := (track st)\<lparr>Filename := f, Path := Join (dirs st @ [f])\<rparr>\<rparr>"
  from parseLines_body [OF body, of st1] obtain tr
    where tr: "parseLines st1 body = Inr (st1\<lparr>track := tr\<rparr>)" "Path tr = Path (track st1)"
    by blast
  have join: "Join (dirs st @ [f]) = JoinSep (dirs st @ [f]) slash"
    using f assms(2) by (intro Join_valid) (auto simp: namesValid_def)
  have "parseLines st (render (Song f body)) =
      Inr (st\<lparr>tracks := tracks st @ [tr], track := newTrack\<rparr>)"
    using tr(1)
    by (simp add: parseLine_song_begin parseLines_append parseLine_song_end st1_def)
  moreover have "map Path [tr] = songPaths (dirs st) (Song f body)"
    using tr(2) join by (simp add: st1_def)
  moreover have "length [tr] = songEnds (render (Song f body))"
    using songEnds_body [OF body]
    by (simp add: songEnds_def keyval_directive keyval_song_end)
  ultimately show ?thesis unfolding parsesTo_def by blast
qed

lemma parsesTo_other:
  assumes "validNode (Other l)"
  shows "parsesTo st (render (Other l)) (songPaths (dirs st) (Other l))"
proof -
  from assms have l: "\<not> isDirective (fst (keyval l))" by simp
  from parseLine_other [OF l, of st] obtain tr
    where "parseLine st l = Inr (st\<lparr>track := tr\<rparr>)" by blast
  then have "parseLines st (render (Other l)) = Inr (st\<lparr>tracks := tracks st @ [], track := tr\<rparr>)"
    by simp
  moreover have "songEnds (render (Other l)) = 0"
    using l by (auto simp: songEnds_def isDirective_def)
  ultimately show ?thesis unfolding parsesTo_def by force
qed

lemma parsesTo_nodes:
  assumes "\<And>n st. n \<in> set ns \<Longrightarrow> validNode n \<Longrightarrow> namesValid st \<Longrightarrow>
             parsesTo st (render n) (songPaths (dirs st) n)"
    and "\<forall>n\<in>set ns. validNode n" and "namesValid st"
  shows "parsesTo st (concat (map render ns)) (concat (map (songPaths (dirs st)) ns))"
  using assms
proof (induction ns arbitrary: st)
  case Nil
  show ?case unfolding parsesTo_def
    by (rule exI [of _ "[]"], rule exI [of _ "track st"]) (simp add: songEnds_def)
next
  case (Cons n ns)
  from Cons.prems(1) [of n st] Cons.prems(2,3)
  have "parsesTo st (render n) (songPaths (dirs st) n)" by simp
  then obtain new tr where n:
    "parseLines st (render n) = Inr (st\<lparr>tracks := tracks st @ new, track := tr\<rparr>)"
    "map Path new = songPaths (dirs st) n" "length new = songEnds (render n)"
    unfolding parsesTo_def by blast
  define st1 where "st1 = st\<lparr>tracks := tracks st @ new, track := tr\<rparr>"
  have v1: "namesValid st1" and d1: "dirs st1 = dirs st"
    using Cons.prems(3) by (simp_all add: st1_def namesValid_def)
  have "parsesTo st1 (concat (map render ns)) (concat (map (songPaths (dirs st1)) ns))"
    using Cons.prems by (intro Cons.IH v1) auto
  then obtain new' tr' where ns:
    "parseLines st1 (concat (map render ns)) = Inr (st1\<lparr>tracks := tracks st1 @ new', track := tr'\<rparr>)"
    "map Path new' = concat (map (songPaths (dirs st1)) ns)"
    "length new' = songEnds (concat (map render ns))"
    unfolding parsesTo_def by blast
  have "parseLines st (concat (map render (n # ns))) =
      Inr (st\<lparr>tracks := tracks st @ (new @ new'), track := tr'\<rparr>)"
    using n(1) ns(1) by (simp add: parseLines_append st1_def)
  moreover have "map Path (new @ new') = concat (map (songPaths (dirs st)) (n # ns))"
    using n(2) ns(2) d1 by simp
  moreover have "length (new @ new') = songEnds (concat (map render (n # ns)))"
    using n(3) ns(3) by (simp add: songEnds_append)
  ultimately show ?case unfolding parsesTo_def by blast
qed

lemma parsesTo_node:
  "validNode n \<Longrightarrow> namesValid st \<Longrightarrow> parsesTo st (render n) (songPaths (dirs st) n)"
proof (induction n arbitrary: st)
  case (Song f body)
  then show ?case by (rule parsesTo_song)
next
  case (Dir d e ns)
  from Dir.prems(1) have d: "validName d" and e: "fst (keyval e) = ''end''"
    and ns: "\<forall>n\<in>set ns. validNode n" by simp_all
  define st1 where "st1 = st\<lparr>dirs := dirs st @ [d]\<rparr>"
  have v1: "namesValid st1" using Dir.prems(2) d by (simp add: st1_def namesValid_def)
  have "parsesTo st1 (concat (map render ns)) (concat (map (songPaths (dirs st1)) ns))"
    using Dir.IH ns v1 by (intro parsesTo_nodes) auto
  then obtain new tr where inner:
    "parseLines st1 (concat (map render ns)) = Inr (st1\<lparr>tracks := tracks st1 @ new, track := tr\<rparr>)"
    "map Path new = concat (map (songPaths (dirs st1)) ns)"
    "length new = songEnds (concat (map render ns))"
    unfolding parsesTo_def by blast
  have "parseLine (st1\<lparr>tracks := tracks st1 @ new, track := tr\<rparr>) e =
      Inr (st1\<lparr>tracks := tracks st1 @ new, track := tr\<rparr>
             \<lparr>dirs := butlast (dirs (st1\<lparr>tracks := tracks st1 @ new, track := tr\<rparr>))\<rparr>)"
    using e by (intro parseLine_end) (simp_all add: st1_def)
  then have "parseLines st (render (Dir d e ns)) =
      Inr (st\<lparr>tracks := tracks st @ new, track := tr\<rparr>)"
    using inner(1) by (simp add: parseLine_directory parseLines_append st1_def)
  moreover have "map Path new = songPaths (dirs st) (Dir d e ns)"
    using inner(2) by (simp add: st1_def)
  moreover have "length new = songEnds (render (Dir d e ns))"
    using inner(3) e by (simp add: songEnds_def keyval_directive)
  ultimately show ?case unfolding parsesTo_def by blast
next
  case (Other l)
  then show ?case using parsesTo_other by blast
qed

text \<open>
  C2: on the lines of a valid database the parser returns, its list has exactly one
  track for every \<open>song_end\<close> directive, and the paths of the tracks, in order, are the
  names of the directories open at each \<open>song_begin\<close> followed by the file name, joined
  by the separator in stack order.
\<close>

theorem parse_valid_database:
  assumes "\<forall>n\<in>set db. validNode n"
  shows "\<exists>ts. parse (concat (map render db)) None = Inr ts \<and>
              length ts = songEnds (concat (map render db)) \<and>
              map Path ts = concat (map (songPaths []) db)"
proof -
  have "namesValid initState" by (simp add: namesValid_def initState_def)
  with assms have "parsesTo initState (concat (map render db))
      (concat (map (songPaths (dirs initState)) db))"
    by (intro parsesTo_nodes parsesTo_node) auto
  then obtain new tr where
    "parseLines initState (concat (map render db)) =
       Inr (initState\<lparr>tracks := tracks initState @ new, track := tr\<rparr>)"
    "map Path new = concat (map (songPaths (dirs initState)) db)"
    "length new = songEnds (concat (map render db))"
    unfolding parsesTo_def by blast
  then show ?thesis by (simp add: parse_def initState_def)
qed

text \<open>An instance of C2: the end-to-end scenario of the spec.\<close>

theorem parse_valid_database_witness:
  "validNode (hd exampleDatabase) \<and>
   concat (map render exampleDatabase) =
     [''directory: Music'', ''begin: Music'', ''song_begin: chandelier.mp3'', ''Artist: Sia'',
      ''Title: Chandelier'', ''Time: 215'', ''song_end'', ''end: Music''] \<and>
   parse (concat (map render exampleDatabase)) None =
     Inr [\<lparr>Album = [], Artist = ''Sia'', Date = [], Filename = ''chandelier.mp3'',
           Genre = [], Path = ''Music/chandelier.mp3'', Time = ''(03:35)'',
           Title = ''Chandelier''\<rparr>] \<and>
   songEnds (concat (map render exampleDatabase)) = 1 \<and>
   concat (map (songPaths []) exampleDatabase) = [''Music/chandelier.mp3'']"
proof -
  have v: "\<forall>n\<in>set exampleDatabase. validNode n"
    by (simp add: exampleDatabase_def validName_def isDirective_def keyval_def slash_def)
  have r: "concat (map render exampleDatabase) =
     [''directory: Music'', ''begin: Music'', ''song_begin: chandelier.mp3'', ''Artist: Sia'',
      ''Title: Chandelier'', ''Time: 215'', ''song_end'', ''end: Music'']"
    by (simp add: exampleDatabase_def directive_def)
  have p: "parse [''directory: Music'', ''begin: Music'', ''song_begin: chandelier.mp3'',
      ''Artist: Sia'', ''Title: Chandelier'', ''Time: 215'', ''song_end'', ''end: Music''] None =
     Inr [\<lparr>Album = [], Artist = ''Sia'', Date = [], Filename = ''chandelier.mp3'',
           Genre = [], Path = ''Music/chandelier.mp3'', Time = ''(03:35)'',
           Title = ''Chandelier''\<rparr>]"
    by (simp add: parse_defs Clean_def slash_def duration_defs)
  from parse_valid_database [OF v] v r p show ?thesis
    by (simp add: exampleDatabase_def songEnds_def keyval_def slash_def)
qed

end
